theory Spec2Isabelle
  imports Main "HOL-Library.Multiset" "HOL-Library.Product_Lexorder"
begin

section \<open>Go runtime conventions shared by the models\<close>

text \<open>
  A Go pointer is modelled as an option: \<open>None\<close> is the nil pointer. Reading or writing
  a field through nil, and indexing a slice out of range, panic, and so may a method that
  a value brings along (its marshaler, when the value is encoded); a panic is a value of
  type \<open>panic\<close> on the left of a sum, so that every operation that could panic has an
  explicit \<open>Inl\<close> branch.
\<close>

datatype panic = NilPointerDereference | IndexOutOfRange | MarshalerPanic

definition deref :: "'a option \<Rightarrow> panic + 'a" where
  "deref p = (case p of None \<Rightarrow> Inl NilPointerDereference | Some v \<Rightarrow> Inr v)"

definition index :: "'a list \<Rightarrow> nat \<Rightarrow> panic + 'a" where
  "index xs i = (if i < length xs then Inr (xs ! i) else Inl IndexOutOfRange)"

text \<open>
  Values of Go's \<open>any\<close>, together with \<open>zapcore.Field\<close>, which the logger passes
  around inside \<open>any\<close> slices. A \<open>map[string]any\<close> is a list of key/value pairs.
  \<open>AMarshaler\<close> stands for every value of a type that brings its own marshalling method
  (\<open>json.Marshaler\<close>, \<open>zapcore.ObjectMarshaler\<close>): \<open>AMarshaler (Some text)\<close> encodes
  to \<open>text\<close>, and the marshaler of \<open>AMarshaler None\<close> panics when it is called.
\<close>

datatype any =
    AString string
  | AInt int
  | ABool bool
  | ADuration int
  | AError string
  | ANil
  | AMap "(string \<times> any) list"
  | AMarshaler "string option"
  | AField field
and field =
    ZField string any
  | ZSkip

section \<open>Process-group setup (internal/transcription/sysproc_*.go)\<close>

text \<open>
  \<open>syscall.SysProcAttr\<close> (the POSIX fields that matter for sessions and groups) and
  \<open>exec.Cmd\<close>. The command is polymorphic in its attribute type, because the attribute
  struct differs between build targets.
\<close>

record sys_proc_attr =
  Chroot :: string
  Setsid :: bool
  Setpgid :: bool
  Setctty :: bool
  Noctty :: bool
  Ctty :: int
  Foreground :: bool
  Pgid :: int

definition sys_proc_attr_zero :: sys_proc_attr where
  "sys_proc_attr_zero =
     \<lparr>Chroot = [], Setsid = False, Setpgid = False, Setctty = False, Noctty = False,
      Ctty = 0, Foreground = False, Pgid = 0\<rparr>"

record 'a cmd =
  Path :: string
  Args :: "string list"
  Env :: "string list"
  Dir :: string
  SysProcAttr :: "'a option"

text \<open>
  Each function takes the \<open>*exec.Cmd\<close> pointer and returns the command it points to
  after the call, or the panic.

  linux and darwin: \<^verbatim>\<open>cmd.SysProcAttr = &syscall.SysProcAttr{Setpgid: true}\<close>.
\<close>

definition ConfigureCmdSysProcAttr_linux ::
  "sys_proc_attr cmd option \<Rightarrow> panic + sys_proc_attr cmd option" where
  "ConfigureCmdSysProcAttr_linux cmd =
     (case deref cmd of
        Inl e \<Rightarrow> Inl e
      | Inr c \<Rightarrow> Inr (Some (c\<lparr>SysProcAttr := Some (sys_proc_attr_zero\<lparr>Setpgid := True\<rparr>)\<rparr>)))"

definition ConfigureCmdSysProcAttr_darwin ::
  "sys_proc_attr cmd option \<Rightarrow> panic + sys_proc_attr cmd option" where
  "ConfigureCmdSysProcAttr_darwin cmd =
     (case deref cmd of
        Inl e \<Rightarrow> Inl e
      | Inr c \<Rightarrow> Inr (Some (c\<lparr>SysProcAttr := Some (sys_proc_attr_zero\<lparr>Setpgid := True\<rparr>)\<rparr>)))"

text \<open>windows: the body is empty, the pointer is never read.\<close>

definition ConfigureCmdSysProcAttr_windows :: "'a cmd option \<Rightarrow> panic + 'a cmd option" where
  "ConfigureCmdSysProcAttr_windows cmd = Inr cmd"

section \<open>Configuration snapshot (config.go)\<close>

record environment =
  OS :: string
  Arch :: string
  SupportsNvidiaStack :: bool
  SupportsMPS :: bool
  DefaultWhisperDevice :: string

record config =
  Port :: string
  Host :: string
  DatabasePath :: string
  JWTSecret :: string
  UploadDir :: string
  UVPath :: string
  WhisperXEnv :: string
  Environment :: environment

text \<open>
  \<open>Snapshot\<close>, a method on \<open>Config\<close> pointers: the receiver may be nil. The nil test
  comes first; every field read after it goes through \<open>deref\<close>. The result map is the
  list of its entries.
\<close>

definition Snapshot :: "config option \<Rightarrow> panic + (string \<times> any) list" where
  "Snapshot c =
     (if c = None then Inr []
      else
        (case deref c of
           Inl e \<Rightarrow> Inl e
         | Inr cfg \<Rightarrow>
             Inr [(''port'', AString (Port cfg)),
                  (''host'', AString (Host cfg)),
                  (''database_path'', AString (DatabasePath cfg)),
                  (''jwt_secret'', AString (JWTSecret cfg)),
                  (''upload_dir'', AString (UploadDir cfg)),
                  (''uv_path'', AString (UVPath cfg)),
                  (''whisperx_env'', AString (WhisperXEnv cfg)),
                  (''environment'',
                     AMap [(''os'', AString (OS (Environment cfg))),
                           (''arch'', AString (Arch (Environment cfg))),
                           (''supports_nvidia_stack'', ABool (SupportsNvidiaStack (Environment cfg))),
                           (''supports_mps'', ABool (SupportsMPS (Environment cfg))),
                           (''default_whisper_device'',
                              AString (DefaultWhisperDevice (Environment cfg)))])]))"

section \<open>Static asset route (web/static.go)\<close>

text \<open>\<open>strings.HasPrefix\<close> and \<open>strings.Contains\<close> on byte strings.\<close>

fun HasPrefix :: "string \<Rightarrow> string \<Rightarrow> bool" where
  "HasPrefix s [] = True"
| "HasPrefix [] (p # ps) = False"
| "HasPrefix (c # cs) (p # ps) = (c = p \<and> HasPrefix cs ps)"

fun Contains :: "string \<Rightarrow> string \<Rightarrow> bool" where
  "Contains [] substr = HasPrefix [] substr"
| "Contains (c # cs) substr = (if HasPrefix (c # cs) substr then True else Contains cs substr)"

text \<open>
  The part of \<open>gin.Context\<close> the handler touches: the route parameters, the request
  line, and the response writer (status, whether the header has been written, header
  fields, body so far).
\<close>

record gin_context =
  Params :: "(string \<times> string) list"
  Request_Method :: string
  Request_URL_Path :: string
  Writer_status :: nat
  Writer_written :: bool
  Writer_header :: "(string \<times> string) list"
  Writer_body :: string

definition StatusOK :: nat where "StatusOK = 200"
definition StatusNotFound :: nat where "StatusNotFound = 404"

definition cacheAssets :: string where
  "cacheAssets = ''public, max-age=31536000, immutable''"

text \<open>\<open>c.Param(key)\<close>: the value of the first parameter named \<open>key\<close>, or the empty string.\<close>

fun ByName :: "(string \<times> string) list \<Rightarrow> string \<Rightarrow> string" where
  "ByName [] name = []"
| "ByName ((k, v) # ps) name = (if k = name then v else ByName ps name)"

definition Param :: "gin_context \<Rightarrow> string \<Rightarrow> string" where
  "Param c key = ByName (Params c) key"

text \<open>
  \<open>c.Status(code)\<close> is the writer's \<open>WriteHeader\<close>: the status changes only while
  nothing has been written. \<open>c.Header(key, value)\<close> deletes the field when the value is
  empty and replaces it otherwise.
\<close>

definition Status :: "gin_context \<Rightarrow> nat \<Rightarrow> gin_context" where
  "Status c code =
     (if 0 < code \<and> Writer_status c \<noteq> code then
        (if Writer_written c then c else c\<lparr>Writer_status := code\<rparr>)
      else c)"

definition Header :: "gin_context \<Rightarrow> string \<Rightarrow> string \<Rightarrow> gin_context" where
  "Header c key val =
     (if val = [] then c\<lparr>Writer_header := filter (\<lambda>kv. fst kv \<noteq> key) (Writer_header c)\<rparr>
      else c\<lparr>Writer_header := filter (\<lambda>kv. fst kv \<noteq> key) (Writer_header c) @ [(key, val)]\<rparr>)"

text \<open>
  The closure \<open>serveAsset\<close> of \<open>SetupStaticRoutes\<close>. Its free variable
  \<open>assetsHandler\<close> (the standard library's file server over the embedded \<open>dist/assets\<close>,
  behind \<open>http.StripPrefix\<close>) is a parameter: any function that reads the request and
  writes to the response writer.
\<close>

definition serveAsset :: "(gin_context \<Rightarrow> gin_context) \<Rightarrow> gin_context \<Rightarrow> gin_context" where
  "serveAsset assetsHandler c =
     (if Contains (Param c ''filepath'') ''..'' then Status c StatusNotFound
      else assetsHandler (Header c ''Cache-Control'' cacheAssets))"

section \<open>Logger (pkg/logger/logger.go)\<close>

text \<open>zap's levels with their numeric order.\<close>

datatype level = DebugLevel | InfoLevel | WarnLevel | ErrorLevel | DPanicLevel | PanicLevel | FatalLevel

fun level_rank :: "level \<Rightarrow> int" where
  "level_rank DebugLevel = -1"
| "level_rank InfoLevel = 0"
| "level_rank WarnLevel = 1"
| "level_rank ErrorLevel = 2"
| "level_rank DPanicLevel = 3"
| "level_rank PanicLevel = 4"
| "level_rank FatalLevel = 5"

text \<open>Decimal rendering of a slice index, for \<^verbatim>\<open>fmt.Sprintf("arg_%d", i)\<close>.\<close>

fun show_nat :: "nat \<Rightarrow> string" where
  "show_nat n = (if n < 10 then [char_of (48 + n)] else show_nat (n div 10) @ [char_of (48 + n mod 10)])"

text \<open>
  The field helpers (\<open>Int\<close> is spelt \<open>Int_f\<close>). \<open>ErrorField\<close> takes a Go \<open>error\<close>:
  \<open>None\<close> is nil, otherwise the error's message.
\<close>

definition String :: "string \<Rightarrow> string \<Rightarrow> field" where "String key val = ZField key (AString val)"
definition Any :: "string \<Rightarrow> any \<Rightarrow> field" where "Any key val = ZField key val"

text \<open>
  \<open>normalizeFields\<close>: the \<open>for\<close> loop with its index \<open>i\<close> and the slice \<open>result\<close>
  built so far. Both slice reads go through \<open>index\<close>. The type switch has the cases
  \<open>Field\<close>, \<open>string\<close> (which consumes the next element as the value when there is
  one) and default.
\<close>

function normalizeFields_loop :: "any list \<Rightarrow> nat \<Rightarrow> field list \<Rightarrow> panic + field list" where
  "normalizeFields_loop flds i result =
     (if i < length flds then
        (case index flds i of
           Inl e \<Rightarrow> Inl e
         | Inr (AField v) \<Rightarrow> normalizeFields_loop flds (i + 1) (result @ [v])
         | Inr (AString v) \<Rightarrow>
             (if i + 1 < length flds then
                (case index flds (i + 1) of
                   Inl e \<Rightarrow> Inl e
                 | Inr nxt \<Rightarrow> normalizeFields_loop flds (i + 1 + 1) (result @ [Any v nxt]))
              else normalizeFields_loop flds (i + 1) (result @ [String v ''<missing>'']))
         | Inr v \<Rightarrow> normalizeFields_loop flds (i + 1) (result @ [Any (''arg_'' @ show_nat i) v]))
      else Inr result)"
  by pat_completeness auto
termination
  by (relation "measure (\<lambda>(flds, i, result). length flds - i)") auto

declare normalizeFields_loop.simps [simp del]

definition normalizeFields :: "any list \<Rightarrow> panic + field list" where
  "normalizeFields flds = (if length flds = 0 then Inr [] else normalizeFields_loop flds 0 [])"

text \<open>
  The logger's surroundings: the package variables \<open>defaultLogger\<close> and \<open>atomicLevel\<close>,
  the process environment and file system, the library functions whose code is outside
  the repository (as functions), and what has been written to the three sinks.
\<close>

datatype core = ConsoleCore | FileCore string

datatype zap_logger = Logger "core list"

record entry =
  entry_level :: level
  entry_message :: string
  entry_fields :: "field list"

record logger_world =
  defaultLogger :: "zap_logger option"
  atomicLevel :: level
  Getenv :: "string \<Rightarrow> string"
  MkdirAll_ok :: "string \<Rightarrow> bool"
  OpenFile_ok :: "string \<Rightarrow> bool"
  ToLower :: "string \<Rightarrow> string"
  TrimSpace :: "string \<Rightarrow> string"
  filepath_Dir :: "string \<Rightarrow> string"
  Level_Set :: "string \<Rightarrow> level option"
  stdout :: "entry list"
  log_files :: "(string \<times> entry) list"
  stderr :: "string list"

definition defaultLogFile :: string where
  "defaultLogFile = ''data/logs/scriberr.log''"

definition openLogFile :: "logger_world \<Rightarrow> string option \<times> logger_world" where
  "openLogFile w =
     (let path0 = TrimSpace w (Getenv w ''LOG_FILE'');
          path = (if path0 = [] then defaultLogFile else path0)
      in if \<not> MkdirAll_ok w (filepath_Dir w path)
         then (None, w\<lparr>stderr := stderr w @ [''failed to create log directory'']\<rparr>)
         else if \<not> OpenFile_ok w path
         then (None, w\<lparr>stderr := stderr w @ [''failed to open log file'']\<rparr>)
         else (Some path, w))"

definition Init :: "string \<Rightarrow> logger_world \<Rightarrow> logger_world" where
  "Init lvl w =
     (let parsed = (if lvl \<noteq> [] then Level_Set w (ToLower w lvl) else Some InfoLevel);
          w1 = (case parsed of
                  None \<Rightarrow> w\<lparr>stderr := stderr w @ [''invalid LOG_LEVEL, defaulting to INFO'']\<rparr>
                | Some l \<Rightarrow> w);
          parsedLevel = (case parsed of None \<Rightarrow> InfoLevel | Some l \<Rightarrow> l);
          w2 = w1\<lparr>atomicLevel := parsedLevel\<rparr>;
          (fileSyncer, w3) = openLogFile w2;
          cores = (case fileSyncer of None \<Rightarrow> [ConsoleCore] | Some f \<Rightarrow> [ConsoleCore, FileCore f])
      in w3\<lparr>defaultLogger := Some (Logger cores)\<rparr>)"

definition Get :: "logger_world \<Rightarrow> zap_logger option \<times> logger_world" where
  "Get w =
     (let w1 = (if defaultLogger w = None then Init (Getenv w ''LOG_LEVEL'') w else w)
      in (defaultLogger w1, w1))"

text \<open>
  What zap does with a field when it encodes an entry. The encoders call the marshalling
  method of a caller-supplied value, inside maps and nested fields too, and do not recover
  a panic of that method (a panic of an error's \<open>Error\<close> method is recovered by zap, so an
  error is its message); a skipped field is not encoded. \<open>any_panics v\<close> says that
  encoding \<open>v\<close> panics.
\<close>

fun any_panics :: "any \<Rightarrow> bool"
  and map_panics :: "(string \<times> any) list \<Rightarrow> bool"
  and field_panics :: "field \<Rightarrow> bool" where
  "any_panics (AMarshaler m) = (m = None)"
| "any_panics (AMap kvs) = map_panics kvs"
| "any_panics (AField f) = field_panics f"
| "any_panics (AString s) = False"
| "any_panics (AInt i) = False"
| "any_panics (ABool b) = False"
| "any_panics (ADuration d) = False"
| "any_panics (AError e) = False"
| "any_panics ANil = False"
| "map_panics [] = False"
| "map_panics ((k, v) # kvs) = (any_panics v \<or> map_panics kvs)"
| "field_panics (ZField k v) = any_panics v"
| "field_panics ZSkip = False"

text \<open>
  zap's logger methods \<open>Debug\<close>, \<open>Info\<close>, \<open>Warn\<close> and \<open>Error\<close>: they return nothing;
  the receiver is dereferenced, and an enabled entry is written to the cores one after the
  other. A core encodes the entry with its fields before it writes anything, on the
  caller's goroutine; \<open>logger.go\<close> has no \<open>recover\<close>, so a panic raised while encoding
  leaves the logging call as a panic.
\<close>

fun write_core :: "entry \<Rightarrow> core \<Rightarrow> logger_world \<Rightarrow> panic + logger_world" where
  "write_core e ConsoleCore w =
     (if list_ex field_panics (entry_fields e) then Inl MarshalerPanic
      else Inr (w\<lparr>stdout := stdout w @ [e]\<rparr>))"
| "write_core e (FileCore path) w =
     (if list_ex field_panics (entry_fields e) then Inl MarshalerPanic
      else Inr (w\<lparr>log_files := log_files w @ [(path, e)]\<rparr>))"

fun write_cores :: "entry \<Rightarrow> core list \<Rightarrow> logger_world \<Rightarrow> panic + logger_world" where
  "write_cores e [] w = Inr w"
| "write_cores e (c # cs) w =
     (case write_core e c w of
        Inl p \<Rightarrow> Inl p
      | Inr w1 \<Rightarrow> write_cores e cs w1)"

definition zap_log ::
  "zap_logger option \<Rightarrow> level \<Rightarrow> string \<Rightarrow> field list \<Rightarrow> logger_world \<Rightarrow> panic + logger_world" where
  "zap_log l lvl msg fs w =
     (case deref l of
        Inl e \<Rightarrow> Inl e
      | Inr (Logger cs) \<Rightarrow>
          if level_rank (atomicLevel w) \<le> level_rank lvl
          then write_cores \<lparr>entry_level = lvl, entry_message = msg, entry_fields = fs\<rparr> cs w
          else Inr w)"

definition log_at :: "level \<Rightarrow> string \<Rightarrow> any list \<Rightarrow> logger_world \<Rightarrow> panic + logger_world" where
  "log_at lvl msg flds w =
     (case Get w of
        (l, w1) \<Rightarrow>
          (case normalizeFields flds of
             Inl e \<Rightarrow> Inl e
           | Inr fs \<Rightarrow> zap_log l lvl msg fs w1))"



definition Warn :: "string \<Rightarrow> any list \<Rightarrow> logger_world \<Rightarrow> panic + logger_world" where
  "Warn msg flds w = log_at WarnLevel msg flds w"







section \<open>Job engine\<close>

text \<open>
  The worker pool, cancellation controller, process supervisor, progress tracker and merge
  coordinator are not among the source files at hand. The definitions of this section
  follow the specification's data model (section 3) and component design (section 4);
  each says which part of the engine it stands for and the sentences it follows.
\<close>

text \<open>
  Modelled from the spec: the job status of the data model (the engine's job type is
  missing from the sources), "status \<in> {Queued, Running, Succeeded, Failed, Killed}".
\<close>

datatype job_status = Queued | Running | Succeeded | Failed | Killed

text \<open>
  Modelled from the spec: the merge status of the data model (missing from the sources),
  "merge_status \<in> {NotApplicable, Pending, Merging, Merged, Failed}"; its \<open>Failed\<close> is
  spelt \<open>MergeFailed\<close>.
\<close>

datatype merge_status = NotApplicable | Pending | Merging | Merged | MergeFailed

text \<open>
  Modelled from the spec: the Job record of the data model (the engine's job type is
  missing from the sources). The transient process handle is the process group id, absent
  when the job has no active process.
\<close>

record job =
  job_id :: string
  inputs :: "string list"
  adapter :: string
  parameters :: "(string \<times> string) list"
  status :: job_status
  progress :: nat
  started_at :: "nat option"
  completed_at :: "nat option"
  error_detail :: string
  merge_state :: merge_status
  handle :: "nat option"

subsection \<open>Process supervisor and cancellation controller\<close>

text \<open>
  Modelled from the spec: the state of the Process Supervisor (section 4.3; its code is
  missing from the sources): the process groups that are live, and the groups a
  termination signal has been sent to.
\<close>

record supervisor =
  live :: "nat list"
  signalled :: "nat list"

text \<open>
  Modelled from the spec: the Process Supervisor's \<open>Kill(handle)\<close> (section 4.3; its code
  is missing from the sources). It "sends a termination signal to the group" and "is
  idempotent: killing an already-exited or already-killed handle is a no-op, never an
  error".
\<close>

definition supervisor_Kill :: "nat \<Rightarrow> supervisor \<Rightarrow> supervisor" where
  "supervisor_Kill h s =
     (if h \<in> set (live s) \<and> h \<notin> set (signalled s) then s\<lparr>signalled := signalled s @ [h]\<rparr>
      else s)"

text \<open>
  Modelled from the spec: the state the Cancellation Controller works on (missing from the
  sources): the job records by id, and the Process Supervisor.
\<close>

record engine =
  jobs :: "string \<Rightarrow> job option"
  process_supervisor :: supervisor

text \<open>
  Modelled from the spec: the results of \<open>Kill(jobID)\<close> (section 6; missing from the
  sources), "Kill(jobID) \<rightarrow> ack | NotRunning".
\<close>

datatype kill_result = Ack | NotRunning

text \<open>
  Modelled from the spec: the Cancellation Controller's \<open>Kill(jobID)\<close> (section 4.6; its
  code is missing from the sources). "If the job is not Running, returns a NotRunning
  result with no side effects; otherwise delegates to the Process Supervisor's Kill on the
  job's active handle." \<open>Kill\<close> has the two results \<open>ack\<close> and \<open>NotRunning\<close> only, so
  an id without a job record is answered \<open>NotRunning\<close> too. A Running job has an active
  process by the data model's invariant; for a record that breaks it (Running, no handle)
  there is nothing to signal.
\<close>

definition Kill :: "string \<Rightarrow> engine \<Rightarrow> kill_result \<times> engine" where
  "Kill jobID e =
     (case jobs e jobID of
        None \<Rightarrow> (NotRunning, e)
      | Some j \<Rightarrow>
          if status j \<noteq> Running then (NotRunning, e)
          else (case handle j of
                  None \<Rightarrow> (Ack, e)
                | Some h \<Rightarrow> (Ack, e\<lparr>process_supervisor := supervisor_Kill h (process_supervisor e)\<rparr>)))"

subsection \<open>Progress tracker\<close>

text \<open>
  The Progress Tracker (section 4.4) consumes the adapter's output line by line. The line
  format is not fixed by the specification, so the parser is a parameter of the model:
  \<open>parse line\<close> is the percentage the line reports, or \<open>None\<close> for a malformed line.
  The tracker's state is the job and the log of the lines it skipped.
\<close>

text \<open>
  Modelled from the spec: the application of one progress update (section 4.4; the
  tracker's code is missing from the sources): "applies updates to the job's progress
  field, enforcing monotonic non-decrease".
\<close>

definition apply_update :: "job \<Rightarrow> nat \<Rightarrow> job" where
  "apply_update j p = (if progress j \<le> p then j\<lparr>progress := p\<rparr> else j)"

text \<open>
  Modelled from the spec: the tracker's handling of one line (section 4.4; missing from the
  sources): a well-formed line is an update, "a malformed line is logged and skipped,
  never fatal to the job".
\<close>

definition track_line ::
  "(string \<Rightarrow> nat option) \<Rightarrow> job \<times> string list \<Rightarrow> string \<Rightarrow> job \<times> string list" where
  "track_line parse s line =
     (case parse line of
        None \<Rightarrow> (fst s, snd s @ [line])
      | Some p \<Rightarrow> (apply_update (fst s) p, snd s))"

text \<open>
  Modelled from the spec: the tracker over the whole stream (section 4.4; missing from the
  sources), a sequence of lines that is "finite, ends at process exit".
\<close>

fun track_stream ::
  "(string \<Rightarrow> nat option) \<Rightarrow> job \<times> string list \<Rightarrow> string list \<Rightarrow> job \<times> string list" where
  "track_stream parse s [] = s"
| "track_stream parse s (line # rest) = track_stream parse (track_line parse s line) rest"

subsection \<open>Worker pool: claiming a job\<close>

text \<open>
  Modelled from the spec: the persistence collaborator's \<open>UpdateJobStatus\<close> (section 6;
  missing from the sources), which "must be atomic/transactional for the claim CAS": a
  compare-and-swap on the status of a stored job, one step on the job store.
\<close>

definition UpdateJobStatus ::
  "string \<Rightarrow> job_status \<Rightarrow> job_status \<Rightarrow> (string \<Rightarrow> job option) \<Rightarrow> bool \<times> (string \<Rightarrow> job option)" where
  "UpdateJobStatus jobID expected new store =
     (case store jobID of
        None \<Rightarrow> (False, store)
      | Some j \<Rightarrow>
          if status j = expected then (True, store(jobID \<mapsto> j\<lparr>status := new\<rparr>))
          else (False, store))"

text \<open>
  Modelled from the spec: a worker's claim (section 4.2; the worker pool's code is missing
  from the sources): "atomically transition the claimed job Queued\<rightarrow>Running
  (compare-and-swap against current status so concurrent claim attempts by other workers
  fail cleanly)".
\<close>

definition claim :: "string \<Rightarrow> (string \<Rightarrow> job option) \<Rightarrow> bool \<times> (string \<Rightarrow> job option)" where
  "claim jobID store = UpdateJobStatus jobID Queued Running store"

text \<open>
  Modelled from the spec: N workers racing to claim one job (sections 4.2 and 8; missing
  from the sources). Each claim is one atomic step, so a run of the race is the order in
  which the workers' steps take effect, and every order is a run. \<open>race\<close> performs the
  claims of the workers in the given order and records each worker's outcome.
\<close>

fun race ::
  "nat list \<Rightarrow> string \<Rightarrow> (string \<Rightarrow> job option) \<Rightarrow> (nat \<times> bool) list \<times> (string \<Rightarrow> job option)" where
  "race [] jobID store = ([], store)"
| "race (w # ws) jobID store =
     (case claim jobID store of
        (won, store1) \<Rightarrow>
          (case race ws jobID store1 of
             (outcomes, store2) \<Rightarrow> ((w, won) # outcomes, store2)))"

text \<open>
  Modelled from the spec: the workers that "win the claim" in a race (section 8; missing
  from the sources).
\<close>

definition winners :: "(nat \<times> bool) list \<Rightarrow> nat list" where
  "winners outcomes = map fst (filter snd outcomes)"

text \<open>
  Modelled from the spec: the workers that "observe the claim failure" in a race
  (section 8; missing from the sources).
\<close>

definition losers :: "(nat \<times> bool) list \<Rightarrow> nat list" where
  "losers outcomes = map fst (filter (\<lambda>r. \<not> snd r) outcomes)"

text \<open>
  Modelled from the spec: the racing workers as concurrent processes (sections 4.2 and 5;
  missing from the sources): "N parallel worker execution contexts sharing one job
  queue". A state of the race holds the workers whose claim has not taken effect yet, the
  outcomes observed so far, and the job store.
\<close>

record race_state =
  waiting :: "nat list"
  observed :: "(nat \<times> bool) list"
  job_store :: "string \<Rightarrow> job option"

text \<open>
  Modelled from the spec: the moves open in a state of the race (sections 4.2 and 5;
  missing from the sources). Any one of the waiting workers may be the next whose atomic
  claim takes effect; nothing orders the workers.
\<close>

definition race_moves :: "string \<Rightarrow> race_state \<Rightarrow> race_state list" where
  "race_moves jobID s =
     map (\<lambda>w. case claim jobID (job_store s) of
                 (won, store') \<Rightarrow>
                   \<lparr>waiting = remove1 w (waiting s), observed = observed s @ [(w, won)],
                    job_store = store'\<rparr>)
         (waiting s)"

text \<open>
  Modelled from the spec: one step of the race (sections 4.2 and 5; missing from the
  sources), from a state to one of the states its moves lead to.
\<close>

definition race_step :: "string \<Rightarrow> race_state \<Rightarrow> race_state \<Rightarrow> bool" where
  "race_step jobID s s' = (s' \<in> set (race_moves jobID s))"

subsection \<open>Merge coordinator\<close>

text \<open>
  Modelled from the spec: a track of a multitrack job (section 4.5; the merge
  coordinator's code is missing from the sources). A track carries its index among the
  job's inputs, its declared start offset (in milliseconds), the status of its
  transcription and its output.
\<close>

record track =
  track_index :: nat
  start_offset :: int
  track_status :: job_status
  track_output :: string

text \<open>
  Modelled from the spec: the order of the merged transcript (section 4.5; missing from
  the sources), "ordered by each track's declared start offset; equal offsets are broken
  by track index". \<open>before t u\<close> says that \<open>t\<close> comes before \<open>u\<close>.
\<close>

definition before :: "track \<Rightarrow> track \<Rightarrow> bool" where
  "before t u =
     (start_offset t < start_offset u
      \<or> (start_offset t = start_offset u \<and> track_index t < track_index u))"

text \<open>
  Modelled from the spec: the merge routine's step (section 4.5; missing from the sources),
  which puts one more track into an ordered transcript.
\<close>

fun place_track :: "track \<Rightarrow> track list \<Rightarrow> track list" where
  "place_track t [] = [t]"
| "place_track t (u # us) = (if before t u then t # u # us else u # place_track t us)"

text \<open>
  Modelled from the spec: the merge routine (section 4.5; missing from the sources), which
  "consumes all track outputs and produces one transcript".
\<close>

fun merge_routine :: "track list \<Rightarrow> track list" where
  "merge_routine [] = []"
| "merge_routine (t # ts) = place_track t (merge_routine ts)"

text \<open>
  Modelled from the spec: a multitrack job as the Merge Coordinator sees it (section 4.5;
  missing from the sources): its tracks, its merge status and the merged transcript.
\<close>

record multitrack =
  tracks :: "track list"
  merge_status :: merge_status
  transcript :: "track list"

text \<open>
  Modelled from the spec: the coordinator's trigger condition (section 4.5; missing from
  the sources), "every constituent track of a multitrack job has individually succeeded".
\<close>

definition all_succeeded :: "track list \<Rightarrow> bool" where
  "all_succeeded ts = list_all (\<lambda>t. track_status t = Succeeded) ts"

text \<open>
  Modelled from the spec: the coordinator's step Pending\<rightarrow>Merging (section 4.5; missing
  from the sources); after a failed merge "a caller may re-trigger merge without re-running
  transcription".
\<close>

definition start_merge :: "multitrack \<Rightarrow> multitrack" where
  "start_merge m =
     (if (merge_status m = Pending \<or> merge_status m = MergeFailed) \<and> all_succeeded (tracks m)
      then m\<lparr>merge_status := Merging\<rparr> else m)"

text \<open>
  Modelled from the spec: the coordinator's step Merging\<rightarrow>Merged (section 4.5; missing
  from the sources), taken when the merge routine has produced the transcript.
\<close>

definition finish_merge :: "multitrack \<Rightarrow> multitrack" where
  "finish_merge m =
     (if merge_status m = Merging
      then m\<lparr>merge_status := Merged, transcript := merge_routine (tracks m)\<rparr> else m)"

text \<open>
  Modelled from the spec: the coordinator's step Merging\<rightarrow>Failed (section 4.5; missing
  from the sources): "merge failure is isolated: it does not retroactively fail the
  already-succeeded track jobs".
\<close>

definition fail_merge :: "multitrack \<Rightarrow> multitrack" where
  "fail_merge m = (if merge_status m = Merging then m\<lparr>merge_status := MergeFailed\<rparr> else m)"

subsection \<open>Instances used to exercise the theorems\<close>

text \<open>
  A job record and an engine holding it, a line parser that knows three percentages, a
  succeeded track, and the sort key behind \<open>before\<close> (pairs are compared
  lexicographically).
\<close>

definition demo_job :: "job_status \<Rightarrow> nat option \<Rightarrow> job" where
  "demo_job st h =
     \<lparr>job_id = ''j1'', inputs = [''a.wav''], adapter = ''whisperx'', parameters = [],
      status = st, progress = 0, started_at = None, completed_at = None, error_detail = [],
      merge_state = NotApplicable, handle = h\<rparr>"

definition demo_store :: "job_status \<Rightarrow> nat option \<Rightarrow> string \<Rightarrow> job option" where
  "demo_store st h = (\<lambda>k. if k = ''j1'' then Some (demo_job st h) else None)"

definition demo_engine :: "job_status \<Rightarrow> nat option \<Rightarrow> engine" where
  "demo_engine st h =
     \<lparr>jobs = demo_store st h, process_supervisor = \<lparr>live = [7], signalled = []\<rparr>\<rparr>"

definition percent_line :: "string \<Rightarrow> nat option" where
  "percent_line line =
     (if line = ''25%'' then Some 25 else if line = ''50%'' then Some 50
      else if line = ''100%'' then Some 100 else None)"


definition demo_track :: "nat \<Rightarrow> int \<Rightarrow> string \<Rightarrow> track" where
  "demo_track i off out =
     \<lparr>track_index = i, start_offset = off, track_status = Succeeded, track_output = out\<rparr>"

definition track_key :: "track \<Rightarrow> int \<times> nat" where
  "track_key t = (start_offset t, track_index t)"

section \<open>Adapter registration (internal/transcription/autoregister.go)\<close>

text \<open>
  A Go source file as far as registration goes: the import path of its package, its import
  declarations, and the functions it declares. An import declaration is blank
  (\<^verbatim>\<open>import _ "path"\<close>, made for the side effects of the imported package's
  initialisation and nothing else) or named.
\<close>

datatype import_name = Blank | Named

record go_file =
  file_package :: string
  file_imports :: "(import_name \<times> string) list"
  file_funcs :: "string list"

text \<open>
  \<open>autoregister.go\<close>, in the directory of package \<open>transcription\<close>: one import
  declaration, blank, of the adapters package ("for their init() side effects, ensuring
  model registrations are wired up whenever the transcription package is used"), and no
  function.
\<close>

definition autoregister_go :: go_file where
  "autoregister_go =
     \<lparr>file_package = ''scriberr/internal/transcription'',
      file_imports = [(Blank, ''scriberr/internal/transcription/adapters'')],
      file_funcs = []\<rparr>"



text \<open>
  Modelled from the spec: the operations of the Adapter Registry (section 4.1; the
  registry's code is missing from the sources), \<open>Register(descriptor)\<close>, \<open>Lookup(name)\<close>
  and \<open>List()\<close>. A descriptor is identified by its name, its "unique key".
\<close>

datatype registry_op = Register string | Lookup string | ListAll

text \<open>
  A Go package as far as program initialisation goes: its import path, its imports, and
  the registry operations that its \<open>init()\<close> functions perform, in order. An import
  holds the imported package itself, so the import graph has no cycle, as Go demands.
\<close>

datatype package =
  Package (package_path: string) (package_imports: "(import_name \<times> package) list")
    (package_inits: "registry_op list")








text \<open>
  The package a file stands for, with its imports resolved; the file declares no
  \<open>init()\<close> function of its own. Package \<open>transcription\<close> is the package of
  \<open>autoregister.go\<close>. The adapters package is not among the sources: it is the parameter
  \<open>a\<close>, any package at all. The other imports of package \<open>transcription\<close> in the sources
  (\<open>os/exec\<close> and \<open>syscall\<close>, in the \<open>sysproc\<close> files) are standard-library packages
  that do not touch the registry and are left out.
\<close>

definition package_of_file :: "go_file \<Rightarrow> (string \<Rightarrow> package) \<Rightarrow> package" where
  "package_of_file f resolve =
     Package (file_package f) (map (\<lambda>imp. (fst imp, resolve (snd imp))) (file_imports f)) []"

definition transcription :: "package \<Rightarrow> package" where
  "transcription a = package_of_file autoregister_go (\<lambda>path. a)"












section \<open>Theorems\<close>

subsection \<open>Process-group setup\<close>

text \<open>
  C1. On the POSIX build targets (linux and darwin), \<open>ConfigureCmdSysProcAttr\<close> applied
  to any command returns normally and leaves the command with a \<open>SysProcAttr\<close> whose
  \<open>Setpgid\<close> is true: the spawned process gets its own process group.
\<close>

theorem posix_configure_sets_setpgid:
  "(\<exists>c' a. ConfigureCmdSysProcAttr_linux (Some c) = Inr (Some c')
            \<and> SysProcAttr c' = Some a \<and> Setpgid a)
   \<and> (\<exists>c' a. ConfigureCmdSysProcAttr_darwin (Some c) = Inr (Some c')
            \<and> SysProcAttr c' = Some a \<and> Setpgid a)"
  by (simp add: ConfigureCmdSysProcAttr_linux_def ConfigureCmdSysProcAttr_darwin_def deref_def)

text \<open>
  C2. On the windows build target \<open>ConfigureCmdSysProcAttr\<close> returns normally and
  leaves its argument exactly as it was, for every command: no field is set, in particular
  no \<open>SysProcAttr\<close>.
\<close>

theorem windows_configure_is_noop:
  "ConfigureCmdSysProcAttr_windows cmd = Inr cmd
   \<and> ConfigureCmdSysProcAttr_windows (Some c) = Inr (Some c)"
  by (simp add: ConfigureCmdSysProcAttr_windows_def)

subsection \<open>Configuration snapshot\<close>

text \<open>
  C10. \<open>Snapshot\<close> on a nil \<open>*Config\<close> returns the empty map, and \<open>Snapshot\<close> never
  panics, whatever the receiver.
\<close>

theorem snapshot_nil_is_empty_and_total:
  "Snapshot None = Inr [] \<and> (\<exists>m. Snapshot c = Inr m)"
  by (cases c) (simp_all add: Snapshot_def deref_def)

subsection \<open>Static asset route\<close>

lemma HasPrefix_iff: "HasPrefix s p \<longleftrightarrow> (\<exists>t. s = p @ t)"
  by (induction s p rule: HasPrefix.induct) auto

lemma Contains_iff: "Contains s sub \<longleftrightarrow> (\<exists>a b. s = a @ sub @ b)"
proof (induction s)
  case Nil
  show ?case by (cases sub) simp_all
next
  case (Cons c cs)
  show ?case
  proof
    assume "Contains (c # cs) sub"
    then consider "HasPrefix (c # cs) sub" | "Contains cs sub"
      by (auto split: if_splits)
    then show "\<exists>a b. c # cs = a @ sub @ b"
    proof cases
      case 1
      then obtain t where "c # cs = sub @ t" by (auto simp: HasPrefix_iff)
      then have "c # cs = [] @ sub @ t" by simp
      then show ?thesis by blast
    next
      case 2
      then obtain a b where "cs = a @ sub @ b" using Cons.IH by blast
      then have "c # cs = (c # a) @ sub @ b" by simp
      then show ?thesis by blast
    qed
  next
    assume "\<exists>a b. c # cs = a @ sub @ b"
    then obtain a b where ab: "c # cs = a @ sub @ b" by blast
    show "Contains (c # cs) sub"
    proof (cases a)
      case Nil
      with ab have "HasPrefix (c # cs) sub" by (auto simp: HasPrefix_iff)
      then show ?thesis by simp
    next
      case (Cons x a')
      with ab have "cs = a' @ sub @ b" by simp
      then have "Contains cs sub" using Cons.IH by blast
      then show ?thesis by simp
    qed
  qed
qed

text \<open>
  C9. For a request whose \<open>filepath\<close> parameter contains \<open>..\<close>, \<open>serveAsset\<close> does
  not reach the file server: its result is the same for every file server, and the body
  and the header fields of the response are as they were on entry. The handler's only
  effect is the status 404; with a response nothing has been written to yet (as the
  router hands it over) the response is exactly the incoming one with status 404.
\<close>

theorem serveAsset_blocks_traversal:
  assumes "Contains (Param c ''filepath'') ''..''"
  shows "serveAsset assetsHandler c = Status c 404
         \<and> serveAsset assetsHandler c = serveAsset otherHandler c
         \<and> Writer_body (serveAsset assetsHandler c) = Writer_body c
         \<and> Writer_header (serveAsset assetsHandler c) = Writer_header c
         \<and> Writer_written (serveAsset assetsHandler c) = Writer_written c
         \<and> (\<not> Writer_written c \<longrightarrow>
               serveAsset assetsHandler c = c\<lparr>Writer_status := 404\<rparr>
               \<and> Writer_status (serveAsset assetsHandler c) = 404)"
  using assms by (simp add: serveAsset_def Status_def StatusNotFound_def)

theorem serveAsset_blocks_traversal_witness:
  "Contains (Param \<lparr>Params = [(''filepath'', ''/../index.html'')], Request_Method = ''GET'',
        Request_URL_Path = ''/assets/../index.html'', Writer_status = 200,
        Writer_written = False, Writer_header = [], Writer_body = []\<rparr> ''filepath'') ''..''
   \<and> serveAsset (\<lambda>c. c\<lparr>Writer_written := True, Writer_body := ''<!doctype html>''\<rparr>)
        \<lparr>Params = [(''filepath'', ''/../index.html'')], Request_Method = ''GET'',
         Request_URL_Path = ''/assets/../index.html'', Writer_status = 200,
         Writer_written = False, Writer_header = [], Writer_body = []\<rparr>
      = \<lparr>Params = [(''filepath'', ''/../index.html'')], Request_Method = ''GET'',
         Request_URL_Path = ''/assets/../index.html'', Writer_status = 404,
         Writer_written = False, Writer_header = [], Writer_body = []\<rparr>"
proof -
  let ?c = "\<lparr>Params = [(''filepath'', ''/../index.html'')], Request_Method = ''GET'',
        Request_URL_Path = ''/assets/../index.html'', Writer_status = 200,
        Writer_written = False, Writer_header = [], Writer_body = []\<rparr>"
  have h1: "Contains (Param ?c ''filepath'') ''..''" by (simp add: Param_def)
  have h2: "\<not> Writer_written ?c" by simp
  note th = serveAsset_blocks_traversal
    [of ?c "\<lambda>c. c\<lparr>Writer_written := True, Writer_body := ''<!doctype html>''\<rparr>" id, OF h1]
  have "serveAsset (\<lambda>c. c\<lparr>Writer_written := True, Writer_body := ''<!doctype html>''\<rparr>) ?c
          = ?c\<lparr>Writer_status := 404\<rparr>"
    using th h2 by blast
  then show ?thesis using h1 by simp
qed

subsection \<open>Logger\<close>















subsection \<open>Cancellation controller\<close>

text \<open>
  C5. For a job that is not Running (Queued or terminal), \<open>Kill\<close> answers
  \<open>NotRunning\<close> and the whole engine state, job record and supervisor included, is as
  before. For a Running job it answers \<open>Ack\<close> and the only change is the supervisor's
  \<open>Kill\<close> on the job's handle; the job record itself is not touched by the call.
\<close>

theorem Kill_not_running_no_effect:
  assumes "jobs e jobID = Some j"
  shows "(status j \<noteq> Running \<longrightarrow> Kill jobID e = (NotRunning, e))
         \<and> (status j = Running \<longrightarrow>
              (\<forall>h. handle j = Some h \<longrightarrow>
                 Kill jobID e
                   = (Ack, e\<lparr>process_supervisor := supervisor_Kill h (process_supervisor e)\<rparr>)))
         \<and> jobs (snd (Kill jobID e)) = jobs e"
  using assms by (auto simp: Kill_def split: option.splits)


theorem Kill_not_running_no_effect_witness:
  "Kill ''j1'' (demo_engine Queued None) = (NotRunning, demo_engine Queued None)
   \<and> Kill ''j1'' (demo_engine Succeeded None) = (NotRunning, demo_engine Succeeded None)
   \<and> Kill ''j1'' (demo_engine Running (Some 7))
       = (Ack, (demo_engine Running (Some 7))\<lparr>process_supervisor := \<lparr>live = [7], signalled = [7]\<rparr>\<rparr>)
   \<and> jobs (snd (Kill ''j1'' (demo_engine Running (Some 7)))) = jobs (demo_engine Running (Some 7))"
proof -
  have q: "jobs (demo_engine Queued None) ''j1'' = Some (demo_job Queued None)"
    by (simp add: demo_engine_def demo_store_def)
  have t: "jobs (demo_engine Succeeded None) ''j1'' = Some (demo_job Succeeded None)"
    by (simp add: demo_engine_def demo_store_def)
  have r: "jobs (demo_engine Running (Some 7)) ''j1'' = Some (demo_job Running (Some 7))"
    by (simp add: demo_engine_def demo_store_def)
  have k: "supervisor_Kill 7 (process_supervisor (demo_engine Running (Some 7)))
             = \<lparr>live = [7], signalled = [7]\<rparr>"
    by (simp add: supervisor_Kill_def demo_engine_def)
  show ?thesis
    using Kill_not_running_no_effect [OF q] Kill_not_running_no_effect [OF t]
      Kill_not_running_no_effect [OF r] k
    by (simp add: demo_job_def)
qed

subsection \<open>Progress tracker\<close>

lemma apply_update_mono: "progress j \<le> progress (apply_update j p)"
  by (simp add: apply_update_def)

lemma apply_update_status: "status (apply_update j p) = status j"
  by (simp add: apply_update_def)

lemma track_line_mono: "progress (fst s) \<le> progress (fst (track_line parse s line))"
  by (simp add: track_line_def apply_update_mono split: option.splits)

lemma track_line_status: "status (fst (track_line parse s line)) = status (fst s)"
  by (simp add: track_line_def apply_update_status split: option.splits)

lemma track_stream_mono: "progress (fst s) \<le> progress (fst (track_stream parse s ls))"
proof (induction ls arbitrary: s)
  case Nil
  show ?case by simp
next
  case (Cons line rest)
  have "progress (fst s) \<le> progress (fst (track_line parse s line))"
    by (rule track_line_mono)
  also have "\<dots> \<le> progress (fst (track_stream parse (track_line parse s line) rest))"
    by (rule Cons.IH)
  finally show ?case by simp
qed

lemma track_stream_status: "status (fst (track_stream parse s ls)) = status (fst s)"
  by (induction ls arbitrary: s) (simp_all add: track_line_status)

lemma track_stream_append: "track_stream parse s (ls @ ls') = track_stream parse (track_stream parse s ls) ls'"
  by (induction ls arbitrary: s) simp_all

text \<open>
  C7. The progress of a job never goes down: not by one line, and not between any two
  points of the stream (after \<open>ls\<close> and after the longer \<open>ls @ ls'\<close>). A malformed
  line leaves the job record exactly as it was, and no line changes the job's status, so
  a Running job stays Running.
\<close>

theorem progress_never_decreases:
  "progress (fst s) \<le> progress (fst (track_line parse s line))
   \<and> progress (fst (track_stream parse s ls)) \<le> progress (fst (track_stream parse s (ls @ ls')))
   \<and> (parse line = None \<longrightarrow> fst (track_line parse s line) = fst s)
   \<and> status (fst (track_stream parse s ls)) = status (fst s)"
proof (intro conjI)
  show "progress (fst s) \<le> progress (fst (track_line parse s line))"
    by (rule track_line_mono)
  show "progress (fst (track_stream parse s ls)) \<le> progress (fst (track_stream parse s (ls @ ls')))"
    by (simp add: track_stream_append track_stream_mono)
  show "parse line = None \<longrightarrow> fst (track_line parse s line) = fst s"
    by (simp add: track_line_def)
  show "status (fst (track_stream parse s ls)) = status (fst s)"
    by (rule track_stream_status)
qed

theorem progress_never_decreases_witness:
  "percent_line ''garbage'' = None
   \<and> fst (track_line percent_line (demo_job Running (Some 7), []) ''garbage'')
       = demo_job Running (Some 7)
   \<and> progress (fst (track_stream percent_line (demo_job Running (Some 7), []) [''50%''])) = 50
   \<and> progress (fst (track_stream percent_line (demo_job Running (Some 7), [])
                      ([''50%''] @ [''25%'', ''garbage'']))) = 50
   \<and> status (fst (track_stream percent_line (demo_job Running (Some 7), []) [''50%''])) = Running"
proof -
  have m: "percent_line ''garbage'' = None" by (simp add: percent_line_def)
  have a: "progress (fst (track_stream percent_line (demo_job Running (Some 7), []) [''50%''])) = 50"
    by (simp add: track_line_def percent_line_def apply_update_def demo_job_def)
  have b: "progress (fst (track_stream percent_line (demo_job Running (Some 7), [])
                      ([''50%''] @ [''25%'', ''garbage'']))) = 50"
    by (simp add: track_line_def percent_line_def apply_update_def demo_job_def)
  have c: "status (demo_job Running (Some 7)) = Running" by (simp add: demo_job_def)
  show ?thesis
    using progress_never_decreases [of "(demo_job Running (Some 7), [])" percent_line
        "''garbage''" "[''50%'']" "[''25%'', ''garbage'']"] m a b c
    by simp
qed

subsection \<open>Claiming a job\<close>

lemma claim_lost:
  assumes "store jobID = Some j" and "status j \<noteq> Queued"
  shows "claim jobID store = (False, store)"
  using assms by (simp add: claim_def UpdateJobStatus_def)

lemma claim_won:
  assumes "store jobID = Some j" and "status j = Queued"
  shows "claim jobID store = (True, store(jobID \<mapsto> j\<lparr>status := Running\<rparr>))"
  using assms by (simp add: claim_def UpdateJobStatus_def)

lemma race_lost:
  assumes "store jobID = Some j" and "status j \<noteq> Queued"
  shows "race ws jobID store = (map (\<lambda>w. (w, False)) ws, store)"
  using assms by (induction ws) (simp_all add: claim_lost)

lemma filter_all_lost: "filter snd (map (\<lambda>w. (w, False)) ws) = []"
  by (induction ws) simp_all

lemma filter_none_won: "map fst (filter (\<lambda>r. \<not> snd r) (map (\<lambda>w. (w, False)) ws)) = ws"
  by (induction ws) simp_all

lemma race_append:
  "race (xs @ ys) jobID store
     = (fst (race xs jobID store) @ fst (race ys jobID (snd (race xs jobID store))),
        snd (race ys jobID (snd (race xs jobID store))))"
  by (induction xs arbitrary: store) (simp_all split: prod.splits)

lemma race_snoc:
  assumes "claim jobID (snd (race xs jobID store)) = (won, store')"
  shows "race (xs @ [w]) jobID store = (fst (race xs jobID store) @ [(w, won)], store')"
  using assms by (simp add: race_append)

lemma race_steps_are_schedules:
  assumes "(race_step jobID)\<^sup>*\<^sup>* s s'"
  shows "\<exists>sched. observed s' = observed s @ fst (race sched jobID (job_store s))
                \<and> job_store s' = snd (race sched jobID (job_store s))
                \<and> mset (waiting s) = mset sched + mset (waiting s')"
  using assms
proof (induction rule: rtranclp_induct)
  case base
  have "observed s = observed s @ fst (race [] jobID (job_store s))
        \<and> job_store s = snd (race [] jobID (job_store s))
        \<and> mset (waiting s) = mset [] + mset (waiting s)"
    by simp
  then show ?case by blast
next
  case (step t u)
  then obtain sched where o: "observed t = observed s @ fst (race sched jobID (job_store s))"
    and st: "job_store t = snd (race sched jobID (job_store s))"
    and w: "mset (waiting s) = mset sched + mset (waiting t)"
    by blast
  from step.hyps(2) obtain w' won store' where
    mem: "w' \<in> set (waiting t)" and cl: "claim jobID (job_store t) = (won, store')"
    and u: "u = \<lparr>waiting = remove1 w' (waiting t), observed = observed t @ [(w', won)],
                 job_store = store'\<rparr>"
    by (auto simp: race_step_def race_moves_def split: prod.splits)
  have r: "race (sched @ [w']) jobID (job_store s)
             = (fst (race sched jobID (job_store s)) @ [(w', won)], store')"
    using cl unfolding st by (rule race_snoc)
  have "mset (waiting t) = add_mset w' (mset (remove1 w' (waiting t)))"
    using mem by simp
  then have "mset (waiting s) = mset (sched @ [w']) + mset (waiting u)"
    using w by (simp add: u)
  moreover have "observed u = observed s @ fst (race (sched @ [w']) jobID (job_store s))"
    by (simp add: u o r)
  moreover have "job_store u = snd (race (sched @ [w']) jobID (job_store s))"
    by (simp add: u r)
  ultimately show ?case by blast
qed

lemma race_outcome:
  assumes "store jobID = Some j" and "status j = Queued" and "schedule \<noteq> []"
  shows "winners (fst (race schedule jobID store)) = [hd schedule]"
    and "losers (fst (race schedule jobID store)) = tl schedule"
    and "snd (race schedule jobID store) jobID = Some (j\<lparr>status := Running\<rparr>)"
proof -
  obtain w ws where sch: "schedule = w # ws" using assms(3) by (cases schedule) auto
  let ?store1 = "store(jobID \<mapsto> j\<lparr>status := Running\<rparr>)"
  have won: "claim jobID store = (True, ?store1)" using assms(1,2) by (rule claim_won)
  have "?store1 jobID = Some (j\<lparr>status := Running\<rparr>)" by simp
  moreover have "status (j\<lparr>status := Running\<rparr>) \<noteq> Queued" by simp
  ultimately have rest: "race ws jobID ?store1 = (map (\<lambda>w. (w, False)) ws, ?store1)"
    by (rule race_lost)
  show "winners (fst (race schedule jobID store)) = [hd schedule]"
    using filter_all_lost [of ws] by (simp add: sch won rest winners_def)
  show "losers (fst (race schedule jobID store)) = tl schedule"
    using filter_none_won [of ws] by (simp add: sch won rest losers_def)
  show "snd (race schedule jobID store) jobID = Some (j\<lparr>status := Running\<rparr>)"
    by (simp add: sch won rest)
qed

lemma race_run_outcome:
  assumes "store jobID = Some j" and "status j = Queued" and "workers \<noteq> []"
    and "(race_step jobID)\<^sup>*\<^sup>* \<lparr>waiting = workers, observed = [], job_store = store\<rparr> fin"
  shows "length (winners (observed fin)) \<le> 1"
    and "waiting fin = [] \<Longrightarrow> length (winners (observed fin)) = 1"
    and "waiting fin = [] \<Longrightarrow> length (losers (observed fin)) = length workers - 1"
    and "waiting fin = [] \<Longrightarrow> job_store fin jobID = Some (j\<lparr>status := Running\<rparr>)"
proof -
  obtain sched where o: "observed fin = fst (race sched jobID store)"
    and st: "job_store fin = snd (race sched jobID store)"
    and w: "mset workers = mset sched + mset (waiting fin)"
    using race_steps_are_schedules [OF assms(4)] by auto
  show "length (winners (observed fin)) \<le> 1"
  proof (cases "sched = []")
    case True
    then show ?thesis by (simp add: o winners_def)
  next
    case False
    then show ?thesis using race_outcome(1) [of store jobID j sched, OF assms(1,2)] by (simp add: o)
  qed
  {
    assume "waiting fin = []"
    then have m: "mset workers = mset sched" using w by simp
    then have ne: "sched \<noteq> []" using assms(3) by auto
    have len: "length sched = length workers" using m by (metis size_mset)
    show "length (winners (observed fin)) = 1"
      using race_outcome(1) [of store jobID j sched, OF assms(1,2) ne] by (simp add: o)
    show "length (losers (observed fin)) = length workers - 1"
      using race_outcome(2) [of store jobID j sched, OF assms(1,2) ne] len by (simp add: o)
    show "job_store fin jobID = Some (j\<lparr>status := Running\<rparr>)"
      using race_outcome(3) [of store jobID j sched, OF assms(1,2) ne] by (simp add: st)
  }
qed

text \<open>
  C8. On a Queued job, whatever the order in which the claims of the racing workers take
  effect, exactly one claim succeeds (the first to take effect), every other claim fails
  and changes nothing, and the job ends Running. The same holds of the race as a
  concurrent system in which any waiting worker may move next: in every state it can
  reach at most one worker has won, and when all workers have made their attempt exactly
  one has won and all others have observed the failure.
\<close>

theorem exactly_one_claim_wins:
  assumes "store jobID = Some j" and "status j = Queued" and "workers \<noteq> []"
  shows "winners (fst (race workers jobID store)) = [hd workers]
         \<and> losers (fst (race workers jobID store)) = tl workers
         \<and> snd (race workers jobID store) jobID = Some (j\<lparr>status := Running\<rparr>)
         \<and> (\<forall>fin. (race_step jobID)\<^sup>*\<^sup>* \<lparr>waiting = workers, observed = [], job_store = store\<rparr> fin
               \<longrightarrow> length (winners (observed fin)) \<le> 1
                 \<and> (waiting fin = []
                      \<longrightarrow> length (winners (observed fin)) = 1
                        \<and> length (losers (observed fin)) = length workers - 1
                        \<and> job_store fin jobID = Some (j\<lparr>status := Running\<rparr>)))"
  using race_outcome [of store jobID j workers, OF assms]
    race_run_outcome [of store jobID j workers, OF assms]
  by blast

theorem exactly_one_claim_wins_witness:
  "demo_store Queued None ''j1'' = Some (demo_job Queued None)
   \<and> status (demo_job Queued None) = Queued
   \<and> winners (fst (race [2, 0, 1] ''j1'' (demo_store Queued None))) = [2]
   \<and> losers (fst (race [2, 0, 1] ''j1'' (demo_store Queued None))) = [0, 1]
   \<and> snd (race [2, 0, 1] ''j1'' (demo_store Queued None)) ''j1''
       = Some ((demo_job Queued None)\<lparr>status := Running\<rparr>)
   \<and> (race_step ''j1'')\<^sup>*\<^sup>*
         \<lparr>waiting = [2, 0, 1], observed = [], job_store = demo_store Queued None\<rparr>
         \<lparr>waiting = [], observed = [(0, True), (2, False), (1, False)],
          job_store = (demo_store Queued None)(''j1'' \<mapsto> (demo_job Queued None)\<lparr>status := Running\<rparr>)\<rparr>
   \<and> length (winners [(0, True), (2, False), (1 :: nat, False)]) = 1"
proof -
  let ?s0 = "demo_store Queued None"
  let ?s1 = "(demo_store Queued None)(''j1'' \<mapsto> (demo_job Queued None)\<lparr>status := Running\<rparr>)"
  have a: "?s0 ''j1'' = Some (demo_job Queued None)" by (simp add: demo_store_def)
  have b: "status (demo_job Queued None) = Queued" by (simp add: demo_job_def)
  have c: "[2, 0, 1] \<noteq> ([] :: nat list)" by simp
  have c0: "claim ''j1'' ?s0 = (True, ?s1)" using a b by (rule claim_won)
  have c1: "claim ''j1'' ?s1 = (False, ?s1)" by (rule claim_lost [of _ _ "(demo_job Queued None)\<lparr>status := Running\<rparr>"]) simp_all
  have s1: "race_step ''j1'' \<lparr>waiting = [2, 0, 1], observed = [], job_store = ?s0\<rparr>
              \<lparr>waiting = [2, 1], observed = [(0, True)], job_store = ?s1\<rparr>"
    by (simp add: race_step_def race_moves_def c0)
  have s2: "race_step ''j1'' \<lparr>waiting = [2, 1], observed = [(0, True)], job_store = ?s1\<rparr>
              \<lparr>waiting = [1], observed = [(0, True), (2, False)], job_store = ?s1\<rparr>"
    by (simp add: race_step_def race_moves_def c1)
  have s3: "race_step ''j1'' \<lparr>waiting = [1], observed = [(0, True), (2, False)], job_store = ?s1\<rparr>
              \<lparr>waiting = [], observed = [(0, True), (2, False), (1, False)], job_store = ?s1\<rparr>"
    by (simp add: race_step_def race_moves_def c1)
  have run: "(race_step ''j1'')\<^sup>*\<^sup>*
         \<lparr>waiting = [2, 0, 1], observed = [], job_store = ?s0\<rparr>
         \<lparr>waiting = [], observed = [(0, True), (2, False), (1, False)], job_store = ?s1\<rparr>"
    using s1 s2 s3 by (meson rtranclp.rtrancl_into_rtrancl rtranclp.rtrancl_refl)
  note th = exactly_one_claim_wins
    [of "demo_store Queued None" "''j1''" "demo_job Queued None" "[2, 0, 1]", OF a b c]
  have w1: "winners (fst (race [2, 0, 1] ''j1'' ?s0)) = [2]"
    using th [THEN conjunct1] by (simp only: list.sel)
  have w2: "losers (fst (race [2, 0, 1] ''j1'' ?s0)) = [0, 1]"
    using th [THEN conjunct2, THEN conjunct1] by (simp only: list.sel)
  have w3: "snd (race [2, 0, 1] ''j1'' ?s0) ''j1'' = Some ((demo_job Queued None)\<lparr>status := Running\<rparr>)"
    using th [THEN conjunct2, THEN conjunct2, THEN conjunct1] .
  have d: "length (winners [(0, True), (2, False), (1 :: nat, False)]) = 1"
    using th [THEN conjunct2, THEN conjunct2, THEN conjunct2, rule_format, OF run] by simp
  show ?thesis
    by (intro conjI) (rule a b w1 w2 w3 run d)+
qed

subsection \<open>Merge coordinator\<close>

lemma before_key: "before t u \<longleftrightarrow> track_key t < track_key u"
  by (auto simp: before_def track_key_def)

lemma before_eq: "before = (\<lambda>t u. track_key t < track_key u)"
  by (intro ext) (rule before_key)

lemma mset_place_track: "mset (place_track t ts) = add_mset t (mset ts)"
  by (induction ts) simp_all

lemma mset_merge_routine: "mset (merge_routine ts) = mset ts"
  by (induction ts) (simp_all add: mset_place_track)

lemma set_place_track: "set (place_track t ts) = insert t (set ts)"
  using mset_place_track [of t ts] by (metis set_mset_add_mset_insert set_mset_mset)

lemma sorted_place_track:
  assumes "sorted_wrt before ts" and "\<forall>u \<in> set ts. track_index u \<noteq> track_index t"
  shows "sorted_wrt before (place_track t ts)"
  using assms
proof (induction ts)
  case Nil
  show ?case by simp
next
  case (Cons u us)
  show ?case
  proof (cases "before t u")
    case True
    have "before t v" if "v \<in> set us" for v
    proof -
      have "before u v" using Cons.prems(1) that by simp
      with True show ?thesis by (auto simp: before_key)
    qed
    with True Cons.prems(1) show ?thesis by simp
  next
    case False
    have "track_index u \<noteq> track_index t" using Cons.prems(2) by simp
    with False have ut: "before u t" by (auto simp: before_def)
    have "sorted_wrt before (place_track t us)" using Cons by simp
    with False ut Cons.prems(1) show ?thesis by (auto simp: set_place_track)
  qed
qed

lemma sorted_merge_routine:
  "distinct (map track_index ts) \<Longrightarrow> sorted_wrt before (merge_routine ts)"
proof (induction ts)
  case Nil
  show ?case by simp
next
  case (Cons t ts)
  have same: "set (merge_routine ts) = set ts"
    using mset_merge_routine [of ts] by (metis set_mset_mset)
  have fresh: "\<forall>u \<in> set (merge_routine ts). track_index u \<noteq> track_index t"
  proof
    fix u assume "u \<in> set (merge_routine ts)"
    then have "track_index u \<in> track_index ` set ts"
      using same by simp
    moreover have "track_index t \<notin> track_index ` set ts" using Cons.prems by simp
    ultimately show "track_index u \<noteq> track_index t" by metis
  qed
  have "sorted_wrt before (merge_routine ts)" using Cons by simp
  then show ?case using fresh by (simp add: sorted_place_track)
qed

lemma before_sorted_unique:
  assumes "sorted_wrt before xs" and "sorted_wrt before ys" and "mset xs = mset ys"
    and "distinct (map track_index xs)"
  shows "xs = ys"
proof -
  have s: "set xs = set ys" using assms(3) by (metis set_mset_mset)
  have "inj_on track_index (set xs)" using assms(4) by (simp add: distinct_map)
  then have inj: "inj_on track_key (set xs \<union> set ys)"
    unfolding s by (auto simp: inj_on_def track_key_def)
  have kx: "sorted_wrt (<) (map track_key xs)"
    using assms(1) by (simp add: sorted_wrt_map before_eq)
  have ky: "sorted_wrt (<) (map track_key ys)"
    using assms(2) by (simp add: sorted_wrt_map before_eq)
  have "map track_key xs = map track_key ys"
    using strict_sorted_equal [OF ky kx] s by simp
  with inj show ?thesis by (simp add: inj_on_map_eq_map)
qed

lemma distinct_index_mset:
  assumes "mset ts' = mset ts" and "distinct (map track_index ts)"
  shows "distinct (map track_index ts')"
proof -
  have "image_mset track_index (mset ts') = image_mset track_index (mset ts)"
    by (simp only: assms(1))
  then have "mset (map track_index ts') = mset (map track_index ts)"
    by (simp only: mset_map)
  then show ?thesis
    using assms(2) mset_eq_imp_distinct_iff by blast
qed

lemma merge_routine_order_independent:
  assumes "mset ts' = mset ts" and "distinct (map track_index ts)"
  shows "merge_routine ts' = merge_routine ts"
proof -
  have d': "distinct (map track_index ts')"
    using assms by (rule distinct_index_mset)
  have "mset (merge_routine ts') = mset ts'" by (rule mset_merge_routine)
  also have "\<dots> = mset ts" by (rule assms(1))
  also have "\<dots> = mset (merge_routine ts)" by (rule mset_merge_routine [symmetric])
  finally have m: "mset (merge_routine ts') = mset (merge_routine ts)" .
  have d'': "distinct (map track_index (merge_routine ts'))"
    using mset_merge_routine d' by (rule distinct_index_mset)
  show ?thesis
    using sorted_merge_routine [OF d'] sorted_merge_routine [OF assms(2)] m d''
    by (rule before_sorted_unique)
qed

text \<open>
  C6. For a multitrack job awaiting its merge whose tracks have all succeeded (track
  indices being distinct), the merge ends in \<open>Merged\<close> with a transcript that holds
  every track exactly once, in which each track is before every later one by start
  offset and, at equal offsets, by track index. The transcript does not depend on the
  order in which the track outputs are handed to the routine.
\<close>

theorem merge_orders_by_offset_then_index:
  assumes "merge_status m = Pending" and "all_succeeded (tracks m)"
    and "distinct (map track_index (tracks m))"
  shows "merge_status (finish_merge (start_merge m)) = Merged
         \<and> mset (transcript (finish_merge (start_merge m))) = mset (tracks m)
         \<and> sorted_wrt before (transcript (finish_merge (start_merge m)))
         \<and> (\<forall>ts'. mset ts' = mset (tracks m)
               \<longrightarrow> merge_routine ts' = transcript (finish_merge (start_merge m)))"
proof -
  have t: "transcript (finish_merge (start_merge m)) = merge_routine (tracks m)"
    and s: "merge_status (finish_merge (start_merge m)) = Merged"
    using assms(1,2) by (simp_all add: start_merge_def finish_merge_def)
  have u: "\<forall>ts'. mset ts' = mset (tracks m) \<longrightarrow> merge_routine ts' = merge_routine (tracks m)"
    using assms(3) by (blast intro: merge_routine_order_independent)
  show ?thesis
    unfolding t s
  proof (intro conjI)
    show "Merged = Merged" by (rule refl)
    show "mset (merge_routine (tracks m)) = mset (tracks m)" by (rule mset_merge_routine)
    show "sorted_wrt before (merge_routine (tracks m))"
      using assms(3) by (rule sorted_merge_routine)
    show "\<forall>ts'. mset ts' = mset (tracks m) \<longrightarrow> merge_routine ts' = merge_routine (tracks m)"
      by (rule u)
  qed
qed

theorem merge_orders_by_offset_then_index_witness:
  "transcript (finish_merge (start_merge
       \<lparr>tracks = [demo_track 2 10000 ''C'', demo_track 0 0 ''A'', demo_track 1 10000 ''B''],
        merge_status = Pending, transcript = []\<rparr>))
     = [demo_track 0 0 ''A'', demo_track 1 10000 ''B'', demo_track 2 10000 ''C'']
   \<and> merge_routine [demo_track 1 10000 ''B'', demo_track 0 0 ''A'', demo_track 2 10000 ''C'']
     = [demo_track 0 0 ''A'', demo_track 1 10000 ''B'', demo_track 2 10000 ''C'']
   \<and> merge_status (finish_merge (start_merge
       \<lparr>tracks = [demo_track 2 10000 ''C'', demo_track 0 0 ''A'', demo_track 1 10000 ''B''],
        merge_status = Pending, transcript = []\<rparr>)) = Merged"
proof -
  let ?m = "\<lparr>tracks = [demo_track 2 10000 ''C'', demo_track 0 0 ''A'', demo_track 1 10000 ''B''],
        merge_status = Pending, transcript = []\<rparr>"
  have a: "merge_status ?m = Pending" by simp
  have b: "all_succeeded (tracks ?m)" by (simp add: all_succeeded_def demo_track_def)
  have c: "distinct (map track_index (tracks ?m))" by (simp add: demo_track_def)
  have d: "transcript (finish_merge (start_merge ?m))
             = [demo_track 0 0 ''A'', demo_track 1 10000 ''B'', demo_track 2 10000 ''C'']"
    using a b by (simp add: start_merge_def finish_merge_def before_def demo_track_def)
  have "mset (rev (tracks ?m)) = mset (tracks ?m)" by (rule mset_rev)
  then have e: "mset [demo_track 1 10000 ''B'', demo_track 0 0 ''A'', demo_track 2 10000 ''C'']
                  = mset (tracks ?m)"
    by simp
  note th = merge_orders_by_offset_then_index [OF a b c]
  have f: "merge_routine [demo_track 1 10000 ''B'', demo_track 0 0 ''A'', demo_track 2 10000 ''C'']
             = transcript (finish_merge (start_merge ?m))"
    using th [THEN conjunct2, THEN conjunct2, THEN conjunct2, rule_format, OF e] .
  show ?thesis
    using th [THEN conjunct1] d f by simp
qed

subsection \<open>Adapter registration\<close>





















end
